theory Spec2Isabelle
  imports Main
begin

section \<open>Regular expressions as used by \<open>regexp.MatchString\<close>\<close>

text \<open>
  \<open>GetTotalConnectionsCount\<close> guards its SQL text with
  \<^verbatim>\<open>regexp.MatchString(`^\d+ [A-Za-z]+$`, durationLabel)\<close>.
  Go strings are byte sequences, modelled as \<open>string\<close> (a list of 8-bit characters).
  The character classes of the pattern are ASCII only, so a byte outside ASCII matches
  neither of them.  The pattern is anchored on both sides and carries no flag, hence
  \<open>MatchString\<close> holds iff the whole string is a word of the expression.  The pattern
  compiles, so the error \<open>MatchString\<close> returns beside the result is always nil.
\<close>

datatype cclass = Lit char | Digit | Ranges "(char \<times> char) list"

fun in_class :: "cclass \<Rightarrow> char \<Rightarrow> bool" where
  "in_class (Lit a) c = (c = a)"
| "in_class Digit c = ((48::nat) \<le> of_char c \<and> of_char c \<le> (57::nat))"
| "in_class (Ranges rs) c =
     list_ex (\<lambda>(lo, hi). (of_char lo :: nat) \<le> of_char c \<and> (of_char c :: nat) \<le> of_char hi) rs"

datatype regex = Zero | One | Atom cclass | Alt regex regex | Times regex regex | Star regex

definition Plus :: "regex \<Rightarrow> regex" where
  "Plus r = Times r (Star r)"

fun nullable :: "regex \<Rightarrow> bool" where
  "nullable Zero = False"
| "nullable One = True"
| "nullable (Atom a) = False"
| "nullable (Alt r s) = (nullable r \<or> nullable s)"
| "nullable (Times r s) = (nullable r \<and> nullable s)"
| "nullable (Star r) = True"

fun deriv :: "char \<Rightarrow> regex \<Rightarrow> regex" where
  "deriv c Zero = Zero"
| "deriv c One = Zero"
| "deriv c (Atom a) = (if in_class a c then One else Zero)"
| "deriv c (Alt r s) = Alt (deriv c r) (deriv c s)"
| "deriv c (Times r s) =
     (if nullable r then Alt (Times (deriv c r) s) (deriv c s) else Times (deriv c r) s)"
| "deriv c (Star r) = Times (deriv c r) (Star r)"

fun MatchString :: "regex \<Rightarrow> string \<Rightarrow> bool" where
  "MatchString r [] = nullable r"
| "MatchString r (c # cs) = MatchString (deriv c r) cs"

text \<open>The words of an expression, as the reference meaning of the matcher.\<close>

inductive_set star :: "string set \<Rightarrow> string set" for A :: "string set" where
  star_nil: "[] \<in> star A"
| star_app: "u \<in> A \<Longrightarrow> v \<in> star A \<Longrightarrow> u @ v \<in> star A"

fun lang :: "regex \<Rightarrow> string set" where
  "lang Zero = {}"
| "lang One = {[]}"
| "lang (Atom a) = {[c] | c. in_class a c}"
| "lang (Alt r s) = lang r \<union> lang s"
| "lang (Times r s) = {u @ v | u v. u \<in> lang r \<and> v \<in> lang s}"
| "lang (Star r) = star (lang r)"

text \<open>The pattern \<^verbatim>\<open>^\d+ [A-Za-z]+$\<close>.\<close>

definition letters :: cclass where
  "letters = Ranges [(CHR ''A'', CHR ''Z''), (CHR ''a'', CHR ''z'')]"

definition durationLabelPattern :: regex where
  "durationLabelPattern =
     Times (Plus (Atom Digit)) (Times (Atom (Lit (CHR '' ''))) (Plus (Atom letters)))"

section \<open>Events database module: connection counts\<close>

text \<open>\<open>strings.ReplaceAll\<close> on byte strings; an empty \<open>old\<close> matches before every
  character and at the end, as in Go.\<close>

function ReplaceAll :: "string \<Rightarrow> string \<Rightarrow> string \<Rightarrow> string" where
  "ReplaceAll s old new =
     (if old = [] then new @ concat (map (\<lambda>c. c # new) s)
      else if s = [] then []
      else if take (length old) s = old then new @ ReplaceAll (drop (length old) s) old new
      else hd s # ReplaceAll (tl s) old new)"
  by pat_completeness auto
termination
  by (relation "measure (\<lambda>(s, old, new). length s)") auto

declare ReplaceAll.simps [simp del]

definition MsgErrInvalidParam :: string where
  "MsgErrInvalidParam = ''invalidParameter''"

definition DurationLabel :: string where
  "DurationLabel = ''durationLabel''"

definition selectConnectionsCount :: string where
  "selectConnectionsCount =
     ''SELECT count(1) FROM audit WHERE realm_name=? AND ct_event_type='LOGON_OK' AND date_add(audit_time, INTERVAL ##INTERVAL##)>now()''"

text \<open>Errors of the module: \<open>errors.New\<close> with its message, or whatever the database
  driver reports.\<close>

datatype error = ErrorsNew string | ErrDB string

text \<open>The database handle, as far as \<open>GetTotalConnectionsCount\<close> uses it:
  \<open>QueryRow(statement, realm)\<close> followed by \<open>Scan\<close> into an \<open>int64\<close>.\<close>

type_synonym QueryRow = "string \<Rightarrow> string \<Rightarrow> error + int"

text \<open>The outcome of a call: the Go return pair \<open>(res, err)\<close>, and the statements that
  were sent to the database in order.\<close>

record count_outcome =
  co_res :: int
  co_err :: "error option"
  co_statements :: "string list"

definition GetTotalConnectionsCount :: "QueryRow \<Rightarrow> string \<Rightarrow> string \<Rightarrow> count_outcome" where
  "GetTotalConnectionsCount db realmName durationLabel =
     (let matched = MatchString durationLabelPattern durationLabel in
      if \<not> matched
      then \<lparr>co_res = 0, co_err = Some (ErrorsNew (MsgErrInvalidParam @ ''.'' @ DurationLabel)),
            co_statements = []\<rparr>
      else
        let stmt = ReplaceAll selectConnectionsCount ''##INTERVAL##'' durationLabel in
        (case db stmt realmName of
           Inl e \<Rightarrow> \<lparr>co_res = 0, co_err = Some e, co_statements = [stmt]\<rparr>
         | Inr n \<Rightarrow> \<lparr>co_res = n, co_err = None, co_statements = [stmt]\<rparr>))"

text \<open>The labels the guard is meant to let through, written out: one or more ASCII
  digits, one space, one or more ASCII letters.\<close>

definition duration_labels :: "string set" where
  "duration_labels =
     {ds @ CHR '' '' # ls | ds ls.
        ds \<noteq> [] \<and> ls \<noteq> [] \<and> (\<forall>c\<in>set ds. in_class Digit c) \<and> (\<forall>c\<in>set ls. in_class letters c)}"

section \<open>Events database module: connections of the last 24 hours, hour by hour\<close>

text \<open>
  Instants are seconds since the epoch in UTC (\<open>UTC_TIMESTAMP\<close>, \<open>time.Now().UTC()\<close>).
  \<open>hour_of\<close> is \<open>Hour()\<close>, SQL \<open>HOUR(t)\<close> and \<open>date_format(t, '%H')\<close>; \<open>second_of\<close> is SQL
  \<open>second(t)\<close>; \<open>hour_bucket\<close> identifies the value of \<open>date_format(t, '%Y-%m-%d %H')\<close>.
  Counts and hours are far below the \<open>int64\<close> range, so \<open>int\<close> stands for \<open>int64\<close>.
  One call reads the clock once: every \<open>time.Now()\<close> and \<open>UTC_TIMESTAMP\<close> of a call is the
  one instant \<open>now\<close>.
\<close>

definition hour_of :: "int \<Rightarrow> int" where
  "hour_of t = (t div 3600) mod 24"

definition second_of :: "int \<Rightarrow> int" where
  "second_of t = t mod 60"

definition hour_bucket :: "int \<Rightarrow> int" where
  "hour_bucket t = t div 3600"

text \<open>Go's \<open>%\<close> truncates towards zero.\<close>

definition go_rem :: "int \<Rightarrow> int \<Rightarrow> int" where
  "go_rem a b = sgn a * (\<bar>a\<bar> mod \<bar>b\<bar>)"

text \<open>The columns of table \<open>audit\<close> that the hour statistics read.\<close>

record audit =
  realm_name :: string
  ct_event_type :: string
  audit_time :: int

text \<open>The database: the rows of \<open>audit\<close>, and whether the connection is broken (every
  \<open>Query\<close>, \<open>QueryRow\<close> and \<open>Scan\<close> then reports an error).\<close>

record database =
  audit_rows :: "audit list"
  failing :: bool

definition logon_ok :: "string \<Rightarrow> audit \<Rightarrow> bool" where
  "logon_ok realmName a = (realm_name a = realmName \<and> ct_event_type a = ''LOGON_OK'')"

text \<open>The condition both statements share:
  \<^verbatim>\<open>date_add(audit_time, INTERVAL 24 HOUR) > date_add(UTC_TIMESTAMP, INTERVAL (3600 - second(UTC_TIMESTAMP)) SECOND)\<close>\<close>

definition in_window :: "int \<Rightarrow> audit \<Rightarrow> bool" where
  "in_window now a = (audit_time a + 24 * 3600 > now + (3600 - second_of now))"

text \<open>The outcome of \<open>GetTotalConnectionsHoursCount\<close>: the Go return pair, or a run-time
  panic (index out of range).\<close>

datatype hours_outcome = Returned "int list list" "error option" | Panicked

subsection \<open>The grouped-query version\<close>

text \<open>
  \<^verbatim>\<open>SELECT date_format(audit_time, '%H'), count(1) FROM audit WHERE realm_name=? AND
  ct_event_type='LOGON_OK' AND <window> GROUP by date_format(audit_time, '%Y-%m-%d %H')\<close>.
  SQL leaves the order of the groups open; here each group stands where its last row does.
\<close>

definition selectConnectionsHoursCount_grouped :: "audit list \<Rightarrow> int \<Rightarrow> string \<Rightarrow> (int \<times> int) list" where
  "selectConnectionsHoursCount_grouped rows now realmName =
     (let sel = filter (\<lambda>a. logon_ok realmName a \<and> in_window now a) rows;
          groups = remdups (map (\<lambda>a. hour_bucket (audit_time a)) sel)
      in map (\<lambda>g. (g mod 24,
                    int (length (filter (\<lambda>a. hour_bucket (audit_time a) = g) sel)))) groups)"

definition executeConnectionsQuery :: "database \<Rightarrow> int \<Rightarrow> string \<Rightarrow> int list list \<times> error option" where
  "executeConnectionsQuery db now realmName =
     (if failing db then ([], Some (ErrDB ''query''))
      else (map (\<lambda>(unitConn, nbConns). [unitConn, nbConns])
              (selectConnectionsHoursCount_grouped (audit_rows db) now realmName), None))"

text \<open>First loop: \<open>res[nbHours-i-1] = [(hourNow - i + nbHours) % nbHours, 0]\<close>.\<close>

definition init_hours :: "int \<Rightarrow> int list list" where
  "init_hours hourNow =
     foldl (\<lambda>res i. res[23 - i := [go_rem (hourNow - int i + 24) 24, 0]])
       (replicate 24 []) [0..<24]"

text \<open>Second loop: \<open>res[resHour[0]][1] = resHour[1]\<close>, with Go's index checks.\<close>

fun fill_hours :: "int list list \<Rightarrow> int list list \<Rightarrow> int list list option" where
  "fill_hours res [] = Some res"
| "fill_hours res (resHour # rest) =
     (if length resHour < 2 then None
      else let k = resHour ! 0 in
        if k < 0 \<or> int (length res) \<le> k then None
        else if length (res ! nat k) < 2 then None
        else fill_hours (res[nat k := (res ! nat k)[1 := resHour ! 1]]) rest)"

definition GetTotalConnectionsHoursCount_grouped :: "database \<Rightarrow> int \<Rightarrow> string \<Rightarrow> hours_outcome" where
  "GetTotalConnectionsHoursCount_grouped db now realmName =
     (case executeConnectionsQuery db now realmName of
        (resDB, Some e) \<Rightarrow> Returned [] (Some e)
      | (resDB, None) \<Rightarrow>
          (case fill_hours (init_hours (hour_of now)) resDB of
             None \<Rightarrow> Panicked
           | Some res \<Rightarrow> Returned res None))"

subsection \<open>The per-offset-query version\<close>

text \<open>
  \<^verbatim>\<open>SELECT count(1) FROM audit WHERE realm_name=? AND ct_event_type='LOGON_OK' AND <window>
  AND HOUR(audit_time) = HOUR(DATE_SUB(UTC_TIMESTAMP, INTERVAL ##OFFSET## HOUR))\<close>,
  with \<open>##OFFSET##\<close> replaced by \<open>strconv.Itoa(i)\<close>.
\<close>

definition selectConnectionsHoursCount_offset :: "audit list \<Rightarrow> int \<Rightarrow> string \<Rightarrow> nat \<Rightarrow> int" where
  "selectConnectionsHoursCount_offset rows now realmName i =
     int (length (filter (\<lambda>a. logon_ok realmName a \<and> in_window now a \<and>
                               hour_of (audit_time a) = hour_of (now - int i * 3600)) rows))"

text \<open>The hour label of round \<open>i\<close>:
  \<^verbatim>\<open>if Hour()-(i+1) < 0 { 24 + (Hour() - i) } else { Hour() - i }\<close>.\<close>

definition offset_label :: "int \<Rightarrow> nat \<Rightarrow> int" where
  "offset_label h i = (if h - (int i + 1) < 0 then 24 + (h - int i) else h - int i)"

text \<open>One round of the loop.  \<open>nbConnections\<close> and \<open>err\<close> live outside the loop: a failed
  \<open>Scan\<close> leaves the count of the round before in place, and only the last round's error
  is returned.\<close>

definition hours_round :: "database \<Rightarrow> int \<Rightarrow> string \<Rightarrow>
    int list list \<times> int \<times> error option \<Rightarrow> nat \<Rightarrow> int list list \<times> int \<times> error option" where
  "hours_round db now realmName st i =
     (case st of (res, nbConnections, err) \<Rightarrow>
        let (nbConnections', err') =
              (if failing db then (nbConnections, Some (ErrDB ''scan''))
               else (selectConnectionsHoursCount_offset (audit_rows db) now realmName i, None));
            label = offset_label (hour_of now) i
        in (res[i := [label, nbConnections']], nbConnections', err'))"

definition GetTotalConnectionsHoursCount_offset :: "database \<Rightarrow> int \<Rightarrow> string \<Rightarrow> hours_outcome" where
  "GetTotalConnectionsHoursCount_offset db now realmName =
     (case foldl (hours_round db now realmName) (replicate 24 [], 0, None) [0..<24] of
        (res, nbConnections, err) \<Rightarrow> Returned res err)"

section \<open>Health service: the tables and the wiring of \<open>main\<close>\<close>

text \<open>A Go \<open>map[string]struct{}\<close> is a set of strings, kept as a list of its keys; a
  \<open>map[string]map[string]struct{}\<close> is an association list, and looking up a module that
  is not a key yields the nil map, which holds no name.\<close>

definition validModules :: "string list" where
  "validModules =
     ['''', ''cockroach'', ''elasticsearch'', ''flaki'', ''influx'', ''jaeger'', ''keycloak'',
      ''redis'', ''sentry'']"

definition healthcheckNames :: "string list \<Rightarrow> string list" where
  "healthcheckNames names = remdups names"

definition authorizedHC :: "(string \<times> string list) list" where
  "authorizedHC =
     [(''cockroach'', healthcheckNames ['''', ''ping'']),
      (''elasticsearch'', healthcheckNames ['''', ''ping'']),
      (''flaki'', healthcheckNames ['''', ''nextid'']),
      (''influx'', healthcheckNames ['''', ''ping'']),
      (''jaeger'', healthcheckNames ['''', ''agent'', ''collector'']),
      (''keycloak'', healthcheckNames ['''', ''createuser'', ''deleteuser'']),
      (''redis'', healthcheckNames ['''', ''ping'']),
      (''sentry'', healthcheckNames ['''', ''ping''])]"

definition authorizedHC_of :: "string \<Rightarrow> string list" where
  "authorizedHC_of m = (case map_of authorizedHC m of None \<Rightarrow> [] | Some names \<Rightarrow> names)"

text \<open>
  A \<open>HealthChecker\<close> has the one method \<open>HealthCheck(ctx, name)\<close> returning a report or an
  error.  The state threaded through is the list of calls that reached a module's own
  \<open>HealthCheck\<close>, as pairs of module and check name, oldest first.
\<close>

datatype hc_error = ErrInvalidHCName | ErrInvalidHCModule | ErrProbe string

type_synonym calls = "(string \<times> string) list"

type_synonym 'd HealthChecker = "string \<Rightarrow> calls \<Rightarrow> (hc_error + 'd) \<times> calls"

text \<open>The modules' own implementations are parameters of the wiring.  To observe whether
  a call gets as far as a module, \<open>module_probe m outcome\<close> is a module whose \<open>HealthCheck\<close>
  answers \<open>outcome name\<close> and records the call.\<close>

definition module_probe :: "string \<Rightarrow> (string \<Rightarrow> hc_error + 'd) \<Rightarrow> 'd HealthChecker" where
  "module_probe m outcome name cs = (outcome name, cs @ [(m, name)])"

text \<open>Modelled from the spec: the body of \<open>common.MakeValidationMiddleware\<close> is not among the
  sources.  By 4.1 it rejects a check name that is not in the allow-list it was given,
  before the wrapped checker is touched, and has no side effect.\<close>

definition common_MakeValidationMiddleware ::
    "string list \<Rightarrow> 'd HealthChecker \<Rightarrow> 'd HealthChecker" where
  "common_MakeValidationMiddleware validValues next name cs =
     (if name \<in> set validValues then next name cs else (Inl ErrInvalidHCName, cs))"

text \<open>Modelled from the spec: the body of \<open>common.MakeHealthCheckerLoggingMW\<close> is not
  among the sources.  Logging wrappers are outside the core (section 1): the call is
  passed on, and neither the result nor the calls made change.\<close>

definition MakeHealthCheckerLoggingMW :: "'d HealthChecker \<Rightarrow> 'd HealthChecker" where
  "MakeHealthCheckerLoggingMW next = next"

text \<open>The checkers as \<open>main\<close> builds them, from the modules' own implementations
  (\<open>common.NewCockroachModule\<close>, ..., \<open>health.NewKeycloakModule\<close>), which are given as
  \<open>modules\<close>.\<close>

definition cockroachHM :: "(string \<Rightarrow> 'd HealthChecker) \<Rightarrow> 'd HealthChecker" where
  "cockroachHM modules =
     common_MakeValidationMiddleware (authorizedHC_of ''cockroach'')
       (MakeHealthCheckerLoggingMW (modules ''cockroach''))"

definition influxHM :: "(string \<Rightarrow> 'd HealthChecker) \<Rightarrow> 'd HealthChecker" where
  "influxHM modules =
     common_MakeValidationMiddleware (authorizedHC_of ''influx'')
       (MakeHealthCheckerLoggingMW (modules ''influx''))"

definition jaegerHM :: "(string \<Rightarrow> 'd HealthChecker) \<Rightarrow> 'd HealthChecker" where
  "jaegerHM modules =
     common_MakeValidationMiddleware (authorizedHC_of ''jaeger'')
       (MakeHealthCheckerLoggingMW (modules ''jaeger''))"

definition redisHM :: "(string \<Rightarrow> 'd HealthChecker) \<Rightarrow> 'd HealthChecker" where
  "redisHM modules =
     common_MakeValidationMiddleware (authorizedHC_of ''redis'')
       (MakeHealthCheckerLoggingMW (modules ''redis''))"

definition sentryHM :: "(string \<Rightarrow> 'd HealthChecker) \<Rightarrow> 'd HealthChecker" where
  "sentryHM modules =
     common_MakeValidationMiddleware (authorizedHC_of ''sentry'')
       (MakeHealthCheckerLoggingMW (modules ''sentry''))"

definition flakiHM :: "(string \<Rightarrow> 'd HealthChecker) \<Rightarrow> 'd HealthChecker" where
  "flakiHM modules =
     common_MakeValidationMiddleware (authorizedHC_of ''flaki'')
       (MakeHealthCheckerLoggingMW (modules ''flaki''))"

definition elasticsearchHM :: "(string \<Rightarrow> 'd HealthChecker) \<Rightarrow> 'd HealthChecker" where
  "elasticsearchHM modules =
     common_MakeValidationMiddleware (authorizedHC_of ''elasticsearch'')
       (MakeHealthCheckerLoggingMW (modules ''elasticsearch''))"

definition keycloakHM :: "(string \<Rightarrow> 'd HealthChecker) \<Rightarrow> 'd HealthChecker" where
  "keycloakHM modules = modules ''keycloak''"

definition healthCheckers :: "(string \<Rightarrow> 'd HealthChecker) \<Rightarrow> (string \<times> 'd HealthChecker) list" where
  "healthCheckers modules =
     [(''cockroach'', cockroachHM modules),
      (''elasticsearch'', elasticsearchHM modules),
      (''flaki'', flakiHM modules),
      (''influx'', influxHM modules),
      (''jaeger'', jaegerHM modules),
      (''keycloak'', keycloakHM modules),
      (''redis'', redisHM modules),
      (''sentry'', sentryHM modules)]"

text \<open>A request as the HTTP routes deliver it: the route variables \<open>module\<close> and
  \<open>healthcheck\<close> (empty when the route has none) and the query parameter \<open>nocache\<close>.\<close>

record request =
  rq_module :: string
  rq_healthcheck :: string
  rq_nocache :: bool

type_synonym 'r HealthCheckers = "request \<Rightarrow> calls \<Rightarrow> (hc_error + 'r) \<times> calls"

text \<open>Modelled from the spec: the body of \<open>health.MakeValidationMiddleware\<close> is not among the
  sources.  It is given \<open>validModules\<close> only; by 4.1 it rejects a module that is not in the
  allow-list before anything behind it is touched, and has no side effect.\<close>

definition health_MakeValidationMiddleware ::
    "string list \<Rightarrow> 'r HealthCheckers \<Rightarrow> 'r HealthCheckers" where
  "health_MakeValidationMiddleware validValues next req cs =
     (if rq_module req \<in> set validValues then next req cs else (Inl ErrInvalidHCModule, cs))"

text \<open>Modelled from the spec: the body of \<open>health.MakeComponentLoggingMW\<close> is not among the
  sources; as a logging wrapper (section 1) it passes the call on unchanged.\<close>

definition MakeComponentLoggingMW :: "'r HealthCheckers \<Rightarrow> 'r HealthCheckers" where
  "MakeComponentLoggingMW next = next"

text \<open>\<open>healthComponent\<close> of \<open>main\<close>; \<open>component\<close> stands for
  \<open>health.NewComponent(healthCheckers, healthChecksValidity, healthStorage)\<close>.\<close>

definition healthComponent :: "'r HealthCheckers \<Rightarrow> 'r HealthCheckers" where
  "healthComponent component =
     health_MakeValidationMiddleware validModules (MakeComponentLoggingMW component)"

subsection \<open>What each value of the health block is built from\<close>

text \<open>
  The values \<open>main\<close> constructs for the health service, and for each the values handed to
  the call that constructs it.  A value can only call what it was built from: the
  variables are local to \<open>main\<close>, and the constructors live in other packages.
\<close>

datatype node =
    Module string
  | LoggingMW string
  | ValidationMW string
  | AuthorizedHC string
  | HealthChecksValidity string
  | ValidModules
  | CockroachConn
  | HealthStorage
  | NewComponent
  | ComponentLoggingMW
  | HealthComponent
  | HealthChecksEndpoint
  | HealthHandler
  | HealthJob string
  | CleanJob

text \<open>The modules \<open>main\<close> registers jobs for, and the keys of \<open>healthCheckers\<close>.\<close>

definition jobModules :: "string list" where
  "jobModules =
     [''cockroach'', ''elasticsearch'', ''flaki'', ''influx'', ''jaeger'', ''keycloak'', ''redis'',
      ''sentry'']"

text \<open>\<open>healthCheckers[m]\<close>: the validation middleware for seven modules, the bare module
  for keycloak.\<close>

definition healthCheckers_node :: "string \<Rightarrow> node" where
  "healthCheckers_node m = (if m = ''keycloak'' then Module m else ValidationMW m)"

fun built_from :: "node \<Rightarrow> node list" where
  "built_from (Module m) = (if m = ''cockroach'' then [CockroachConn] else [])"
| "built_from (LoggingMW m) = [Module m]"
| "built_from (ValidationMW m) = [AuthorizedHC m, LoggingMW m]"
| "built_from (AuthorizedHC m) = []"
| "built_from (HealthChecksValidity m) = []"
| "built_from ValidModules = []"
| "built_from CockroachConn = []"
| "built_from HealthStorage = [CockroachConn]"
| "built_from NewComponent =
     map healthCheckers_node jobModules @ map HealthChecksValidity jobModules @ [HealthStorage]"
| "built_from ComponentLoggingMW = [NewComponent]"
| "built_from HealthComponent = [ValidModules, ComponentLoggingMW]"
| "built_from HealthChecksEndpoint = [HealthComponent]"
| "built_from HealthHandler = [HealthChecksEndpoint]"
| "built_from (HealthJob m) = [healthCheckers_node m, HealthChecksValidity m, HealthStorage]"
| "built_from CleanJob = [HealthStorage]"

text \<open>Everything a value can reach through what it was built from.\<close>

inductive_set reaches :: "node \<Rightarrow> node set" for n :: node where
  reaches_self: "n \<in> reaches n"
| reaches_step: "x \<in> reaches n \<Longrightarrow> y \<in> set (built_from x) \<Longrightarrow> y \<in> reaches n"

section \<open>The cache store and the orchestrator\<close>

text \<open>
  \<open>main\<close> constructs the store with \<open>health.NewStorageModule(ComponentName, ComponentID,
  cockroachConn)\<close> and the component with \<open>health.NewComponent(healthCheckers,
  healthChecksValidity, healthStorage)\<close>; the bodies of package \<open>health\<close> are not among
  the sources.  What \<open>main\<close> itself fixes is translated from it; the rest of this section
  follows the specification, and says so at each definition.
\<close>

definition ComponentName :: string where
  "ComponentName = ''keycloak-bridge''"

text \<open>\<open>ComponentID\<close> starts as \<open>unknown\<close> and is replaced by the identifier Flaki returns
  at startup, when Flaki is enabled.\<close>

definition ComponentID :: "bool \<Rightarrow> string \<Rightarrow> string" where
  "ComponentID flakiEnabled nextValidID = (if flakiEnabled then nextValidID else ''unknown'')"

text \<open>Modelled from the spec: the status of a report (section 3), an ordered enumeration
  \<open>OK < DEGRADED < KO\<close>.\<close>

datatype status = OK | DEGRADED | KO

text \<open>Modelled from the spec: the rank of a status in the order of section 3.\<close>

fun severity :: "status \<Rightarrow> nat" where
  "severity OK = 0"
| "severity DEGRADED = 1"
| "severity KO = 2"

text \<open>Modelled from the spec: one probe outcome (section 3); instants and durations in
  seconds.\<close>

record HealthReport =
  module :: string
  checkName :: string
  status :: status
  detail :: string
  timestamp :: int
  validity :: int

text \<open>Modelled from the spec: a report is fresh iff \<open>now - timestamp < validity\<close>, otherwise
  stale (section 3).\<close>

definition fresh :: "int \<Rightarrow> HealthReport \<Rightarrow> bool" where
  "fresh now r = (now - timestamp r < validity r)"

text \<open>Modelled from the spec: the store of \<open>health.NewStorageModule\<close>.  The call in \<open>main\<close>
  gives its parameters; section 9 makes the instance identifier a constructor parameter
  of the store.\<close>

record StorageModule =
  componentName :: string
  componentID :: string

text \<open>Modelled from the spec: the constructor keeps its parameters (section 9).\<close>

definition NewStorageModule :: "string \<Rightarrow> string \<Rightarrow> StorageModule" where
  "NewStorageModule name ident = \<lparr>componentName = name, componentID = ident\<rparr>"

text \<open>\<open>healthStorage\<close> of \<open>main\<close>.\<close>

definition healthStorage :: "bool \<Rightarrow> string \<Rightarrow> StorageModule" where
  "healthStorage flakiEnabled nextValidID =
     NewStorageModule ComponentName (ComponentID flakiEnabled nextValidID)"

text \<open>Modelled from the spec: a persisted row (section 6): the component-instance
  identifier, and the report with its module, check name, detail payload, last-updated
  timestamp and validity.\<close>

record row =
  row_instance :: string
  row_report :: HealthReport

text \<open>Modelled from the spec: a row is identified by (instance, module, checkName)
  (section 6).\<close>

definition row_key :: "row \<Rightarrow> string \<times> string \<times> string" where
  "row_key r = (row_instance r, module (row_report r), checkName (row_report r))"

text \<open>Modelled from the spec: \<open>Read(module, checkName)\<close> of section 4.3, a point read of the
  row of this store's instance.\<close>

definition store_Read :: "StorageModule \<Rightarrow> string \<Rightarrow> string \<Rightarrow> row list \<Rightarrow> HealthReport option" where
  "store_Read sm m c tbl =
     map_option row_report (find (\<lambda>r. row_key r = (componentID sm, m, c)) tbl)"

text \<open>Modelled from the spec: \<open>Write(HealthReport)\<close> of section 4.3; a write replaces the
  prior entry for its key (section 3).\<close>

definition store_Write :: "StorageModule \<Rightarrow> HealthReport \<Rightarrow> row list \<Rightarrow> row list" where
  "store_Write sm rep tbl =
     filter (\<lambda>r. row_key r \<noteq> (componentID sm, module rep, checkName rep)) tbl @
       [\<lparr>row_instance = componentID sm, row_report = rep\<rparr>]"

text \<open>Modelled from the spec: a run of writes, each by some store instance, from the
  earliest on.\<close>

definition store_Writes :: "(StorageModule \<times> HealthReport) list \<Rightarrow> row list \<Rightarrow> row list" where
  "store_Writes ws tbl = foldl (\<lambda>t w. store_Write (fst w) (snd w) t) tbl ws"

text \<open>Modelled from the spec: what a call of the registry yields (sections 4.2 and 7): a
  detail that encodes the status, or a failure to run the probe, or a timeout.\<close>

datatype probe_outcome = ProbeOk status string | ProbeError | ProbeTimeout

text \<open>Modelled from the spec: what the orchestrator works with: the registry, the validity
  of each module's reports (\<open>healthChecksValidity\<close> of \<open>main\<close>) and the store.\<close>

record engine =
  registry :: "string \<Rightarrow> string \<Rightarrow> probe_outcome"
  validityOf :: "string \<Rightarrow> int"
  storage :: StorageModule

text \<open>Modelled from the spec: the state the orchestrator changes: the persisted rows,
  whether the store is out of reach (section 7), and the probe calls made so far.\<close>

record engine_state =
  table :: "row list"
  store_failing :: bool
  probe_calls :: "(string \<times> string) list"

text \<open>Modelled from the spec: the validator of section 4.1 over the tables of \<open>main\<close>.
  The empty module stands for all modules and then only the empty check name goes with
  it; the empty check name stands for all checks of a module.\<close>

definition Authorize :: "string \<Rightarrow> string \<Rightarrow> bool" where
  "Authorize m c =
     (m \<in> set validModules \<and> (if m = '''' then c = '''' else c \<in> set (authorizedHC_of m)))"

text \<open>Modelled from the spec: the target list of section 4.4, step 2.\<close>

definition expand :: "string \<Rightarrow> string \<Rightarrow> (string \<times> string) list" where
  "expand m c =
     concat (map (\<lambda>m'. map (\<lambda>c'. (m', c'))
                          (if c = '''' then filter (\<lambda>n. n \<noteq> '''') (authorizedHC_of m') else [c]))
                 (if m = '''' then filter (\<lambda>n. n \<noteq> '''') validModules else [m]))"

text \<open>Modelled from the spec: "execute fresh" of section 4.4, step 4, for the execution
  that wins the key: call the registry; on success write the result to the store (a
  store failure is not passed on); on a timeout or probe error give a KO report and
  write nothing.\<close>

definition executeFresh ::
    "engine \<Rightarrow> int \<Rightarrow> string \<times> string \<Rightarrow> engine_state \<Rightarrow> HealthReport \<times> engine_state" where
  "executeFresh e now k s =
     (case k of (m, c) \<Rightarrow>
        let s1 = s\<lparr>probe_calls := probe_calls s @ [(m, c)]\<rparr> in
        (case registry e m c of
           ProbeOk st d \<Rightarrow>
             let rep = \<lparr>module = m, checkName = c, status = st, detail = d, timestamp = now,
                        validity = validityOf e m\<rparr>
             in (rep, if store_failing s1 then s1
                      else s1\<lparr>table := store_Write (storage e) rep (table s1)\<rparr>)
         | _ \<Rightarrow>
             (\<lparr>module = m, checkName = c, status = KO, detail = ''probe failed'', timestamp = now,
               validity = validityOf e m\<rparr>, s1)))"

text \<open>Modelled from the spec: resolving one target (section 4.4, step 3): with \<open>noCache\<close>
  execute fresh; else read the store, use a fresh entry, and execute fresh when the
  entry is absent or stale or the store cannot be read (section 7).\<close>

definition resolve ::
    "engine \<Rightarrow> int \<Rightarrow> bool \<Rightarrow> string \<times> string \<Rightarrow> engine_state \<Rightarrow> HealthReport \<times> engine_state" where
  "resolve e now noCache k s =
     (if noCache then executeFresh e now k s
      else if store_failing s then executeFresh e now k s
      else (case store_Read (storage e) (fst k) (snd k) (table s) of
              None \<Rightarrow> executeFresh e now k s
            | Some r \<Rightarrow> if fresh now r then (r, s) else executeFresh e now k s))"

text \<open>Modelled from the spec: the fan-out of section 4.4, step 5, one target after the
  other; no target's outcome stops the ones after it.\<close>

fun resolve_all ::
    "engine \<Rightarrow> int \<Rightarrow> bool \<Rightarrow> (string \<times> string) list \<Rightarrow> engine_state \<Rightarrow>
     HealthReport list \<times> engine_state" where
  "resolve_all e now noCache [] s = ([], s)"
| "resolve_all e now noCache (k # ks) s =
     (case resolve e now noCache k s of
        (r, s1) \<Rightarrow> (case resolve_all e now noCache ks s1 of (rs, s2) \<Rightarrow> (r # rs, s2)))"

text \<open>Modelled from the spec: the aggregate status, the worst of the statuses (section 3);
  with no status at all it is \<open>OK\<close>.\<close>

definition aggregate :: "status list \<Rightarrow> status" where
  "aggregate ss = foldr (\<lambda>a b. if severity b \<le> severity a then a else b) ss OK"

text \<open>Modelled from the spec: the response document of section 6.\<close>

record response =
  resp_status :: status
  resp_modules :: "(string \<times> HealthReport list) list"

text \<open>Modelled from the spec: the orchestrator of section 4.4: validate, expand, resolve
  every target, assemble.\<close>

definition Orchestrator ::
    "engine \<Rightarrow> int \<Rightarrow> request \<Rightarrow> engine_state \<Rightarrow> (hc_error + response) \<times> engine_state" where
  "Orchestrator e now req s =
     (if \<not> Authorize (rq_module req) (rq_healthcheck req)
      then (Inl (if rq_module req \<in> set validModules then ErrInvalidHCName
                 else ErrInvalidHCModule), s)
      else
        (case resolve_all e now (rq_nocache req) (expand (rq_module req) (rq_healthcheck req)) s of
           (reports, s') \<Rightarrow>
             (Inr \<lparr>resp_status = aggregate (map status reports),
                   resp_modules =
                     map (\<lambda>m. (m, filter (\<lambda>r. module r = m) reports))
                       (remdups (map fst (expand (rq_module req) (rq_healthcheck req))))\<rparr>, s')))"

section \<open>The matcher decides the language of its expression\<close>

lemma nullable_iff: "nullable r \<longleftrightarrow> [] \<in> lang r"
  by (induction r) (auto intro: star.intros)

lemma star_cons_iff:
  "c # w \<in> star A \<longleftrightarrow> (\<exists>u v. w = u @ v \<and> c # u \<in> A \<and> v \<in> star A)"
proof
  assume "c # w \<in> star A"
  then show "\<exists>u v. w = u @ v \<and> c # u \<in> A \<and> v \<in> star A"
  proof (induction "c # w" rule: star.induct)
    case (star_app u v)
    show ?case
    proof (cases u)
      case Nil
      with star_app show ?thesis by simp
    next
      case (Cons a u')
      with star_app show ?thesis by auto
    qed
  qed
next
  assume "\<exists>u v. w = u @ v \<and> c # u \<in> A \<and> v \<in> star A"
  then obtain u v where "w = u @ v" "c # u \<in> A" "v \<in> star A" by blast
  then have "(c # u) @ v \<in> star A" by (intro star.star_app)
  with \<open>w = u @ v\<close> show "c # w \<in> star A" by simp
qed

lemma deriv_lang: "w \<in> lang (deriv c r) \<longleftrightarrow> c # w \<in> lang r"
proof (induction r arbitrary: w)
  case (Times r s)
  show ?case
  proof
    assume "w \<in> lang (deriv c (Times r s))"
    then show "c # w \<in> lang (Times r s)"
      using Times by (auto simp: nullable_iff split: if_splits) (metis append_Cons append_Nil)+
  next
    assume "c # w \<in> lang (Times r s)"
    then obtain u v where uv: "c # w = u @ v" "u \<in> lang r" "v \<in> lang s" by auto
    show "w \<in> lang (deriv c (Times r s))"
    proof (cases u)
      case Nil
      with uv Times show ?thesis by (auto simp: nullable_iff)
    next
      case (Cons a u')
      with uv Times show ?thesis by (auto simp: nullable_iff)
    qed
  qed
next
  case (Star r)
  then show ?case by (auto simp: star_cons_iff)
qed auto

lemma MatchString_iff: "MatchString r w \<longleftrightarrow> w \<in> lang r"
  by (induction w arbitrary: r) (auto simp: nullable_iff deriv_lang)

lemma star_atoms: "star {[c] | c. in_class a c} = {w. \<forall>c\<in>set w. in_class a c}"
proof (intro set_eqI iffI)
  fix w assume "w \<in> star {[c] | c. in_class a c}"
  then show "w \<in> {w. \<forall>c\<in>set w. in_class a c}"
    by (induction rule: star.induct) auto
next
  fix w assume "w \<in> {w. \<forall>c\<in>set w. in_class a c}"
  then have "\<forall>c\<in>set w. in_class a c" by simp
  then show "w \<in> star {[c] | c. in_class a c}"
  proof (induction w)
    case Nil
    show ?case by (rule star.star_nil)
  next
    case (Cons x xs)
    then have "[x] \<in> {[c] | c. in_class a c}" "xs \<in> star {[c] | c. in_class a c}" by auto
    then have "[x] @ xs \<in> star {[c] | c. in_class a c}" by (rule star.star_app)
    then show ?case by simp
  qed
qed

lemma lang_Plus_Atom: "lang (Plus (Atom a)) = {w. w \<noteq> [] \<and> (\<forall>c\<in>set w. in_class a c)}"
proof (intro set_eqI iffI)
  fix w assume "w \<in> lang (Plus (Atom a))"
  then show "w \<in> {w. w \<noteq> [] \<and> (\<forall>c\<in>set w. in_class a c)}"
    by (auto simp: Plus_def star_atoms)
next
  fix w assume "w \<in> {w. w \<noteq> [] \<and> (\<forall>c\<in>set w. in_class a c)}"
  then obtain x xs where "w = x # xs" "in_class a x" "\<forall>c\<in>set xs. in_class a c"
    by (cases w) auto
  then have "w = [x] @ xs \<and> [x] \<in> lang (Atom a) \<and> xs \<in> lang (Star (Atom a))"
    by (simp add: star_atoms)
  then show "w \<in> lang (Plus (Atom a))"
    unfolding Plus_def lang.simps(5) by blast
qed

lemma lang_durationLabelPattern: "lang durationLabelPattern = duration_labels"
proof (intro set_eqI iffI)
  fix w assume "w \<in> lang durationLabelPattern"
  then obtain u v where w: "w = u @ v" and u: "u \<in> lang (Plus (Atom Digit))"
    and v: "v \<in> lang (Times (Atom (Lit (CHR '' ''))) (Plus (Atom letters)))"
    unfolding durationLabelPattern_def lang.simps(5) by blast
  from v obtain x y where v': "v = x @ y" and x: "x \<in> lang (Atom (Lit (CHR '' '')))"
    and y: "y \<in> lang (Plus (Atom letters))"
    unfolding lang.simps(5) by blast
  from x have x': "x = [CHR '' '']" by simp
  from u have "u \<noteq> [] \<and> (\<forall>c\<in>set u. in_class Digit c)" unfolding lang_Plus_Atom by simp
  moreover from y have "y \<noteq> [] \<and> (\<forall>c\<in>set y. in_class letters c)" unfolding lang_Plus_Atom by simp
  moreover have "w = u @ CHR '' '' # y" using w v' x' by simp
  ultimately show "w \<in> duration_labels" unfolding duration_labels_def by blast
next
  fix w assume "w \<in> duration_labels"
  then obtain ds ls where w: "w = ds @ CHR '' '' # ls" and ds: "ds \<noteq> []" "\<forall>c\<in>set ds. in_class Digit c"
    and ls: "ls \<noteq> []" "\<forall>c\<in>set ls. in_class letters c"
    unfolding duration_labels_def by blast
  have 1: "ds \<in> lang (Plus (Atom Digit))" using ds unfolding lang_Plus_Atom by simp
  have 2: "ls \<in> lang (Plus (Atom letters))" using ls unfolding lang_Plus_Atom by simp
  have 3: "[CHR '' ''] \<in> lang (Atom (Lit (CHR '' '')))" by simp
  have "[CHR '' ''] @ ls \<in> lang (Times (Atom (Lit (CHR '' ''))) (Plus (Atom letters)))"
    unfolding lang.simps(5) using 2 3 by blast
  then have "ds @ ([CHR '' ''] @ ls) \<in> lang durationLabelPattern"
    unfolding durationLabelPattern_def lang.simps(5) using 1 by blast
  then show "w \<in> lang durationLabelPattern" using w by simp
qed

text \<open>
  Claim C10.  A \<open>durationLabel\<close> matches the pattern exactly when it is digits, a space
  and letters.  For every label that does not match, \<open>GetTotalConnectionsCount\<close> returns
  zero with the error \<open>invalidParameter.durationLabel\<close> and sends no statement to the
  database; every statement it ever sends is \<open>selectConnectionsCount\<close> with a matching
  label put in place of \<open>##INTERVAL##\<close>.
\<close>

theorem GetTotalConnectionsCount_guard:
  "(MatchString durationLabelPattern durationLabel \<longleftrightarrow> durationLabel \<in> duration_labels) \<and>
   (durationLabel \<notin> duration_labels \<longrightarrow>
      GetTotalConnectionsCount db realmName durationLabel =
        \<lparr>co_res = 0, co_err = Some (ErrorsNew ''invalidParameter.durationLabel''), co_statements = []\<rparr>) \<and>
   (\<forall>stmt\<in>set (co_statements (GetTotalConnectionsCount db realmName durationLabel)).
      durationLabel \<in> duration_labels \<and>
      stmt = ReplaceAll selectConnectionsCount ''##INTERVAL##'' durationLabel)"
proof -
  have m: "MatchString durationLabelPattern durationLabel \<longleftrightarrow> durationLabel \<in> duration_labels"
    by (simp add: MatchString_iff lang_durationLabelPattern)
  show ?thesis
    unfolding m [symmetric]
    by (auto simp: GetTotalConnectionsCount_def Let_def MsgErrInvalidParam_def DurationLabel_def
        split: sum.splits)
qed

theorem GetTotalConnectionsCount_guard_witness:
  "GetTotalConnectionsCount (\<lambda>stmt realm. Inr 7) ''master'' ''1 DAY) OR (1=1'' =
     \<lparr>co_res = 0, co_err = Some (ErrorsNew ''invalidParameter.durationLabel''), co_statements = []\<rparr> \<and>
   GetTotalConnectionsCount (\<lambda>stmt realm. Inr 7) ''master'' ''12 HOUR'' =
     \<lparr>co_res = 7, co_err = None, co_statements =
       [''SELECT count(1) FROM audit WHERE realm_name=? AND ct_event_type='LOGON_OK' AND date_add(audit_time, INTERVAL 12 HOUR)>now()'']\<rparr>"
proof -
  have bad: "\<not> MatchString durationLabelPattern ''1 DAY) OR (1=1''" by code_simp
  have good: "MatchString durationLabelPattern ''12 HOUR''" by code_simp
  have sub: "ReplaceAll selectConnectionsCount ''##INTERVAL##'' ''12 HOUR'' =
      ''SELECT count(1) FROM audit WHERE realm_name=? AND ct_event_type='LOGON_OK' AND date_add(audit_time, INTERVAL 12 HOUR)>now()''"
    by code_simp
  from bad GetTotalConnectionsCount_guard [of "''1 DAY) OR (1=1''" "\<lambda>stmt realm. Inr 7" "''master''"]
  have 1: "GetTotalConnectionsCount (\<lambda>stmt realm. Inr 7) ''master'' ''1 DAY) OR (1=1'' =
     \<lparr>co_res = 0, co_err = Some (ErrorsNew ''invalidParameter.durationLabel''), co_statements = []\<rparr>"
    by blast
  have 2: "GetTotalConnectionsCount (\<lambda>stmt realm. Inr 7) ''master'' ''12 HOUR'' =
     \<lparr>co_res = 7, co_err = None, co_statements = [ReplaceAll selectConnectionsCount ''##INTERVAL##'' ''12 HOUR'']\<rparr>"
    using good by (simp add: GetTotalConnectionsCount_def)
  show ?thesis using 1 2 sub by simp
qed

section \<open>The two versions of the hour statistics\<close>

lemma go_rem_nonneg: "0 \<le> a \<Longrightarrow> go_rem a 24 = a mod 24"
  by (cases "a = 0") (simp_all add: go_rem_def)

lemma hour_of_range: "0 \<le> hour_of t \<and> hour_of t < 24"
  by (simp add: hour_of_def)

lemma hour_of_offset: "hour_of (now - int i * 3600) = (hour_of now - int i) mod 24"
proof -
  have "(now - int i * 3600) div 3600 = now div 3600 - int i"
    using div_mult_self1 [of "3600::int" now "- int i"] by simp
  then show ?thesis
    by (simp add: hour_of_def mod_diff_left_eq)
qed

lemma foldl_down_length:
  "length (foldl (\<lambda>res i. res[23 - i := f i]) xs [0..<n]) = length xs"
  by (induction n) simp_all

lemma foldl_down_nth:
  "n \<le> 24 \<Longrightarrow> length xs = 24 \<Longrightarrow> j < 24 \<Longrightarrow>
   foldl (\<lambda>res i. res[23 - i := f i]) xs [0..<n] ! j = (if 24 - n \<le> j then f (23 - j) else xs ! j)"
proof (induction n)
  case 0
  then show ?case by simp
next
  case (Suc n)
  then show ?case
    by (auto simp: nth_list_update foldl_down_length)
qed

lemma init_hours_length: "length (init_hours h) = 24"
  by (simp add: init_hours_def foldl_down_length)

lemma init_hours_nth:
  assumes "0 \<le> h" "h < 24" "j < 24"
  shows "init_hours h ! j = [(h + 1 + int j) mod 24, 0]"
proof -
  have "init_hours h ! j = [go_rem (h - int (23 - j) + 24) 24, 0]"
    unfolding init_hours_def using assms(3) by (subst foldl_down_nth) simp_all
  moreover have "0 \<le> h - int (23 - j) + 24" using assms by simp
  moreover have "h - int (23 - j) + 24 = h + 1 + int j" using assms(3) by simp
  ultimately show ?thesis by (simp add: go_rem_nonneg algebra_simps)
qed

lemma fill_hours_ok:
  assumes "length res = 24" "\<forall>j<24. length (res ! j) = 2"
    and "\<forall>r\<in>set resDB. \<exists>k n. r = [k, n] \<and> 0 \<le> k \<and> k < 24"
  shows "\<exists>res'. fill_hours res resDB = Some res' \<and> length res' = 24 \<and>
     (\<forall>j<24. length (res' ! j) = 2 \<and> res' ! j ! 0 = res ! j ! 0)"
  using assms
proof (induction resDB arbitrary: res)
  case Nil
  then show ?case by simp
next
  case (Cons r rest)
  from Cons.prems(3) obtain k n where r: "r = [k, n]" "0 \<le> k" "k < 24" by auto
  let ?res1 = "res[nat k := (res ! nat k)[1 := n]]"
  have k: "nat k < 24" using r by simp
  have step: "fill_hours res (r # rest) = fill_hours ?res1 rest"
    using r k Cons.prems(1,2) by simp
  have len1: "length ?res1 = 24" using Cons.prems(1) by simp
  have ent1: "\<forall>j<24. length (?res1 ! j) = 2 \<and> ?res1 ! j ! 0 = res ! j ! 0"
  proof (intro allI impI)
    fix j :: nat assume j: "j < 24"
    show "length (?res1 ! j) = 2 \<and> ?res1 ! j ! 0 = res ! j ! 0"
    proof (cases "j = nat k")
      case True
      then show ?thesis using Cons.prems(1,2) k by simp
    next
      case False
      then show ?thesis using Cons.prems(1,2) j by simp
    qed
  qed
  from ent1 have ent1': "\<forall>j<24. length (?res1 ! j) = 2" by blast
  have "\<forall>r\<in>set rest. \<exists>k n. r = [k, n] \<and> 0 \<le> k \<and> k < 24" using Cons.prems(3) by simp
  from Cons.IH [OF len1 ent1' this]
  obtain res' where "fill_hours ?res1 rest = Some res'" "length res' = 24"
    "\<forall>j<24. length (res' ! j) = 2 \<and> res' ! j ! 0 = ?res1 ! j ! 0" by blast
  with step ent1 show ?case by auto
qed

lemma executeConnectionsQuery_rows:
  assumes "\<not> failing db"
  shows "\<exists>resDB. executeConnectionsQuery db now realmName = (resDB, None) \<and>
     (\<forall>r\<in>set resDB. \<exists>k n. r = [k, n] \<and> 0 \<le> k \<and> k < 24)"
  using assms
  by (auto simp: executeConnectionsQuery_def selectConnectionsHoursCount_grouped_def Let_def)

lemma grouped_shape:
  assumes "\<not> failing db"
  shows "\<exists>res1. GetTotalConnectionsHoursCount_grouped db now realmName = Returned res1 None \<and>
     length res1 = 24 \<and>
     (\<forall>j<24. length (res1 ! j) = 2 \<and> res1 ! j ! 0 = (hour_of now + 1 + int j) mod 24)"
proof -
  from executeConnectionsQuery_rows [OF assms]
  obtain resDB where q: "executeConnectionsQuery db now realmName = (resDB, None)"
    and rows: "\<forall>r\<in>set resDB. \<exists>k n. r = [k, n] \<and> 0 \<le> k \<and> k < 24" by blast
  have h: "0 \<le> hour_of now" "hour_of now < 24" using hour_of_range by auto
  have ini: "\<forall>j<24. length (init_hours (hour_of now) ! j) = 2"
    using init_hours_nth [OF h] by simp
  from fill_hours_ok [OF init_hours_length ini rows]
  obtain res' where f: "fill_hours (init_hours (hour_of now)) resDB = Some res'" "length res' = 24"
    "\<forall>j<24. length (res' ! j) = 2 \<and> res' ! j ! 0 = init_hours (hour_of now) ! j ! 0" by blast
  have "GetTotalConnectionsHoursCount_grouped db now realmName = Returned res' None"
    by (simp add: GetTotalConnectionsHoursCount_grouped_def q f(1))
  moreover have "\<forall>j<24. length (res' ! j) = 2 \<and> res' ! j ! 0 = (hour_of now + 1 + int j) mod 24"
    using f(3) init_hours_nth [OF h] by simp
  ultimately show ?thesis using f(2) by blast
qed

lemma foldl_rounds:
  assumes "\<not> failing db" "n \<le> length xs"
  shows "\<exists>res nb e. foldl (hours_round db now realmName) (xs, nb0, e0) [0..<n] = (res, nb, e) \<and>
     length res = length xs \<and> (0 < n \<longrightarrow> e = None) \<and>
     (\<forall>i<n. res ! i = [offset_label (hour_of now) i,
                         selectConnectionsHoursCount_offset (audit_rows db) now realmName i])"
  using assms(2)
proof (induction n)
  case 0
  then show ?case by simp
next
  case (Suc n)
  then obtain res nb e where
    IH: "foldl (hours_round db now realmName) (xs, nb0, e0) [0..<n] = (res, nb, e)"
      "length res = length xs"
      "\<forall>i<n. res ! i = [offset_label (hour_of now) i,
                         selectConnectionsHoursCount_offset (audit_rows db) now realmName i]"
    by auto
  have "hours_round db now realmName (res, nb, e) n =
      (res[n := [offset_label (hour_of now) n,
                 selectConnectionsHoursCount_offset (audit_rows db) now realmName n]],
       selectConnectionsHoursCount_offset (audit_rows db) now realmName n, None)"
    using assms(1) by (simp add: hours_round_def Let_def)
  with IH Suc.prems show ?case
    by (auto simp: nth_list_update less_Suc_eq)
qed

lemma offset_shape:
  assumes "\<not> failing db"
  shows "\<exists>res2. GetTotalConnectionsHoursCount_offset db now realmName = Returned res2 None \<and>
     length res2 = 24 \<and>
     (\<forall>i<24. res2 ! i = [offset_label (hour_of now) i,
                         selectConnectionsHoursCount_offset (audit_rows db) now realmName i])"
proof -
  from foldl_rounds [OF assms, of 24 "replicate 24 []" now realmName 0 None]
  show ?thesis
    by (auto simp: GetTotalConnectionsHoursCount_offset_def)
qed

lemma offset_label_mod:
  assumes "0 \<le> h" "h < 24" "i < 24" "int i \<noteq> h"
  shows "offset_label h i = (h - int i) mod 24"
proof (cases "int i < h")
  case True
  then show ?thesis using assms by (simp add: offset_label_def)
next
  case False
  with assms have "h < int i" by simp
  have "(h - int i) mod 24 = (h - int i + 24) mod 24" by simp
  also have "\<dots> = h - int i + 24"
    using assms \<open>h < int i\<close> by (intro mod_pos_pos_trivial) simp_all
  finally have "(h - int i) mod 24 = 24 + (h - int i)" by simp
  then show ?thesis using \<open>h < int i\<close> by (simp add: offset_label_def)
qed

text \<open>
  Claim C9, as the code has it.  When the database answers, both versions return exactly
  24 entries of two elements each and no error.  The grouped version lists the hour
  labels oldest first: entry \<open>j\<close> is labelled \<open>(Hour() + 1 + j) mod 24\<close>, within 0..23, the last
  one being the current hour.  The per-offset version lists newest first: entry \<open>i\<close> holds the
  number of \<open>LOGON_OK\<close> rows of the realm inside the window whose hour of day is
  \<open>(Hour() - i) mod 24\<close>, and is labelled with that hour for every \<open>i\<close> other than \<open>Hour()\<close>.
\<close>

theorem GetTotalConnectionsHoursCount_shapes:
  assumes "\<not> failing db"
  shows "\<exists>res1 res2.
     GetTotalConnectionsHoursCount_grouped db now realmName = Returned res1 None \<and>
     GetTotalConnectionsHoursCount_offset db now realmName = Returned res2 None \<and>
     length res1 = 24 \<and> length res2 = 24 \<and>
     (\<forall>j<24. length (res1 ! j) = 2 \<and>
        res1 ! j ! 0 = (hour_of now + 1 + int j) mod 24 \<and>
        0 \<le> res1 ! j ! 0 \<and> res1 ! j ! 0 < 24) \<and>
     (\<forall>i<24. length (res2 ! i) = 2 \<and>
        res2 ! i ! 1 =
          int (length (filter (\<lambda>a. logon_ok realmName a \<and> in_window now a \<and>
                                  hour_of (audit_time a) = (hour_of now - int i) mod 24)
                        (audit_rows db))) \<and>
        (int i \<noteq> hour_of now \<longrightarrow> res2 ! i ! 0 = (hour_of now - int i) mod 24))"
proof -
  from grouped_shape [OF assms, of now realmName]
  obtain res1 where g: "GetTotalConnectionsHoursCount_grouped db now realmName = Returned res1 None"
    "length res1 = 24"
    "\<forall>j<24. length (res1 ! j) = 2 \<and> res1 ! j ! 0 = (hour_of now + 1 + int j) mod 24"
    by blast
  from offset_shape [OF assms, of now realmName]
  obtain res2 where f: "GetTotalConnectionsHoursCount_offset db now realmName = Returned res2 None"
    "length res2 = 24"
    "\<forall>i<24. res2 ! i = [offset_label (hour_of now) i,
                         selectConnectionsHoursCount_offset (audit_rows db) now realmName i]"
    by blast
  have h: "0 \<le> hour_of now" "hour_of now < 24" using hour_of_range by auto
  have 1: "\<forall>j<24. length (res1 ! j) = 2 \<and>
        res1 ! j ! 0 = (hour_of now + 1 + int j) mod 24 \<and>
        0 \<le> res1 ! j ! 0 \<and> res1 ! j ! 0 < 24"
    using g(3) by simp
  have 2: "\<forall>i<24. length (res2 ! i) = 2 \<and>
        res2 ! i ! 1 =
          int (length (filter (\<lambda>a. logon_ok realmName a \<and> in_window now a \<and>
                                  hour_of (audit_time a) = (hour_of now - int i) mod 24)
                        (audit_rows db))) \<and>
        (int i \<noteq> hour_of now \<longrightarrow> res2 ! i ! 0 = (hour_of now - int i) mod 24)"
  proof (intro allI impI)
    fix i :: nat assume i: "i < 24"
    with f(3) have e: "res2 ! i = [offset_label (hour_of now) i,
                         selectConnectionsHoursCount_offset (audit_rows db) now realmName i]" by blast
    show "length (res2 ! i) = 2 \<and>
        res2 ! i ! 1 =
          int (length (filter (\<lambda>a. logon_ok realmName a \<and> in_window now a \<and>
                                  hour_of (audit_time a) = (hour_of now - int i) mod 24)
                        (audit_rows db))) \<and>
        (int i \<noteq> hour_of now \<longrightarrow> res2 ! i ! 0 = (hour_of now - int i) mod 24)"
      unfolding e using offset_label_mod [OF h i]
      by (simp add: selectConnectionsHoursCount_offset_def hour_of_offset)
  qed
  from g(1,2) f(1,2) 1 2 show ?thesis by blast
qed

theorem GetTotalConnectionsHoursCount_shapes_witness:
  "\<not> failing \<lparr>audit_rows = [\<lparr>realm_name = ''master'', ct_event_type = ''LOGON_OK'', audit_time = 33300\<rparr>],
      failing = False\<rparr> \<and>
   (\<exists>res1 res2.
     GetTotalConnectionsHoursCount_grouped
       \<lparr>audit_rows = [\<lparr>realm_name = ''master'', ct_event_type = ''LOGON_OK'', audit_time = 33300\<rparr>],
        failing = False\<rparr> 37800 ''master'' = Returned res1 None \<and>
     GetTotalConnectionsHoursCount_offset
       \<lparr>audit_rows = [\<lparr>realm_name = ''master'', ct_event_type = ''LOGON_OK'', audit_time = 33300\<rparr>],
        failing = False\<rparr> 37800 ''master'' = Returned res2 None \<and>
     length res1 = 24 \<and> length res2 = 24 \<and>
     res1 ! 23 ! 0 = 10 \<and> res2 ! 1 ! 0 = 9 \<and> res2 ! 1 ! 1 = 1 \<and> res2 ! 2 ! 1 = 0)"
proof -
  let ?db = "\<lparr>audit_rows = [\<lparr>realm_name = ''master'', ct_event_type = ''LOGON_OK'', audit_time = 33300\<rparr>],
      failing = False\<rparr>"
  have up: "\<not> failing ?db" by simp
  have h: "hour_of 37800 = 10" by (simp add: hour_of_def)
  from GetTotalConnectionsHoursCount_shapes [OF up, of 37800 "''master''"]
  obtain res1 res2 where
    r: "GetTotalConnectionsHoursCount_grouped ?db 37800 ''master'' = Returned res1 None"
       "GetTotalConnectionsHoursCount_offset ?db 37800 ''master'' = Returned res2 None"
       "length res1 = 24" "length res2 = 24"
    and g: "\<forall>j<24. length (res1 ! j) = 2 \<and>
        res1 ! j ! 0 = (hour_of 37800 + 1 + int j) mod 24 \<and>
        0 \<le> res1 ! j ! 0 \<and> res1 ! j ! 0 < 24"
    and f: "\<forall>i<24. length (res2 ! i) = 2 \<and>
        res2 ! i ! 1 =
          int (length (filter (\<lambda>a. logon_ok ''master'' a \<and> in_window 37800 a \<and>
                                  hour_of (audit_time a) = (hour_of 37800 - int i) mod 24)
                        (audit_rows ?db))) \<and>
        (int i \<noteq> hour_of 37800 \<longrightarrow> res2 ! i ! 0 = (hour_of 37800 - int i) mod 24)"
    by blast
  from g have "res1 ! 23 ! 0 = (hour_of 37800 + 1 + int 23) mod 24" by simp
  then have a: "res1 ! 23 ! 0 = 10" by (simp add: h)
  from f have "res2 ! 1 ! 0 = (hour_of 37800 - int 1) mod 24" by (simp add: h)
  then have b: "res2 ! 1 ! 0 = 9" by (simp add: h)
  from f have "res2 ! 1 ! 1 =
          int (length (filter (\<lambda>a. logon_ok ''master'' a \<and> in_window 37800 a \<and>
                                  hour_of (audit_time a) = (hour_of 37800 - int 1) mod 24)
                        (audit_rows ?db)))" by simp
  then have c: "res2 ! 1 ! 1 = 1"
    by (simp add: h logon_ok_def in_window_def second_of_def hour_of_def)
  from f have "res2 ! 2 ! 1 =
          int (length (filter (\<lambda>a. logon_ok ''master'' a \<and> in_window 37800 a \<and>
                                  hour_of (audit_time a) = (hour_of 37800 - int 2) mod 24)
                        (audit_rows ?db)))" by simp
  then have d: "res2 ! 2 ! 1 = 0"
    by (simp add: h logon_ok_def in_window_def second_of_def hour_of_def)
  from up r a b c d show ?thesis by blast
qed

text \<open>
  The claim as stated fails: at 10:30:00 UTC with one \<open>LOGON_OK\<close> row at 09:15:00 the two
  versions return different lists.  The per-offset version labels the entry of offset
  \<open>Hour()\<close> with 24, and the grouped version stores the count of hour 9 at index 9, whose
  label is 20.
\<close>

theorem GetTotalConnectionsHoursCount_differ:
  "GetTotalConnectionsHoursCount_grouped
     \<lparr>audit_rows = [\<lparr>realm_name = ''master'', ct_event_type = ''LOGON_OK'', audit_time = 33300\<rparr>],
      failing = False\<rparr> 37800 ''master'' =
   Returned
     [[11, 0], [12, 0], [13, 0], [14, 0], [15, 0], [16, 0], [17, 0], [18, 0],
      [19, 0], [20, 1], [21, 0], [22, 0], [23, 0], [0, 0], [1, 0], [2, 0],
      [3, 0], [4, 0], [5, 0], [6, 0], [7, 0], [8, 0], [9, 0], [10, 0]] None \<and>
   GetTotalConnectionsHoursCount_offset
     \<lparr>audit_rows = [\<lparr>realm_name = ''master'', ct_event_type = ''LOGON_OK'', audit_time = 33300\<rparr>],
      failing = False\<rparr> 37800 ''master'' =
   Returned
     [[10, 0], [9, 1], [8, 0], [7, 0], [6, 0], [5, 0], [4, 0], [3, 0], [2, 0],
      [1, 0], [24, 0], [23, 0], [22, 0], [21, 0], [20, 0], [19, 0], [18, 0],
      [17, 0], [16, 0], [15, 0], [14, 0], [13, 0], [12, 0], [11, 0]] None \<and>
   GetTotalConnectionsHoursCount_grouped
     \<lparr>audit_rows = [\<lparr>realm_name = ''master'', ct_event_type = ''LOGON_OK'', audit_time = 33300\<rparr>],
      failing = False\<rparr> 37800 ''master'' \<noteq>
   GetTotalConnectionsHoursCount_offset
     \<lparr>audit_rows = [\<lparr>realm_name = ''master'', ct_event_type = ''LOGON_OK'', audit_time = 33300\<rparr>],
      failing = False\<rparr> 37800 ''master''"
  by code_simp

section \<open>The gates and the jobs, as \<open>main\<close> wires them\<close>

text \<open>
  Claim C3, at the input where the code departs from it.  The pair (keycloak, bogus) is
  not in the allow-list.  The gate in front of the component is given \<open>validModules\<close> only
  and lets the request through; the checker registered for keycloak is the bare module,
  so the name reaches the module's own \<open>HealthCheck\<close>, and the call is made.  The checker
  registered for cockroach, like the other six, rejects the same name before its module
  is called.
\<close>

theorem keycloak_check_name_not_validated:
  "''bogus'' \<notin> set (authorizedHC_of ''keycloak'') \<and>
   healthComponent component
     \<lparr>rq_module = ''keycloak'', rq_healthcheck = ''bogus'', rq_nocache = nocache\<rparr> cs =
   component \<lparr>rq_module = ''keycloak'', rq_healthcheck = ''bogus'', rq_nocache = nocache\<rparr> cs \<and>
   (\<exists>hm. map_of (healthCheckers (\<lambda>m. module_probe m (outcome m))) ''keycloak'' = Some hm \<and>
      hm ''bogus'' cs = (outcome ''keycloak'' ''bogus'', cs @ [(''keycloak'', ''bogus'')])) \<and>
   (\<exists>hm. map_of (healthCheckers (\<lambda>m. module_probe m (outcome m))) ''cockroach'' = Some hm \<and>
      hm ''bogus'' cs = (Inl ErrInvalidHCName, cs))"
proof -
  have 1: "''bogus'' \<notin> set (authorizedHC_of ''keycloak'')"
    by (simp add: authorizedHC_of_def authorizedHC_def healthcheckNames_def)
  have 2: "healthComponent component
     \<lparr>rq_module = ''keycloak'', rq_healthcheck = ''bogus'', rq_nocache = nocache\<rparr> cs =
   component \<lparr>rq_module = ''keycloak'', rq_healthcheck = ''bogus'', rq_nocache = nocache\<rparr> cs"
    by (simp add: healthComponent_def health_MakeValidationMiddleware_def
        MakeComponentLoggingMW_def validModules_def)
  have 3: "map_of (healthCheckers (\<lambda>m. module_probe m (outcome m))) ''keycloak'' =
      Some (module_probe ''keycloak'' (outcome ''keycloak''))"
    by (simp add: healthCheckers_def keycloakHM_def)
  have 4: "module_probe ''keycloak'' (outcome ''keycloak'') ''bogus'' cs =
      (outcome ''keycloak'' ''bogus'', cs @ [(''keycloak'', ''bogus'')])"
    by (simp add: module_probe_def)
  have 5: "map_of (healthCheckers (\<lambda>m. module_probe m (outcome m))) ''cockroach'' =
      Some (cockroachHM (\<lambda>m. module_probe m (outcome m)))"
    by (simp add: healthCheckers_def)
  have 6: "cockroachHM (\<lambda>m. module_probe m (outcome m)) ''bogus'' cs = (Inl ErrInvalidHCName, cs)"
    by (simp add: cockroachHM_def common_MakeValidationMiddleware_def authorizedHC_of_def
        authorizedHC_def healthcheckNames_def)
  from 1 2 3 4 5 6 show ?thesis by blast
qed

lemma reaches_HealthJob_only:
  assumes "x \<in> reaches (HealthJob m)"
  shows "x \<in> {HealthJob m, HealthChecksValidity m, HealthStorage, CockroachConn} \<union>
             (if m = ''keycloak'' then {Module m}
              else {ValidationMW m, AuthorizedHC m, LoggingMW m, Module m})"
  using assms
proof (induction rule: reaches.induct)
  case reaches_self
  show ?case by simp
next
  case (reaches_step x y)
  then show ?case
    by (auto simp: healthCheckers_node_def split: if_splits)
qed

lemma HealthJob_reaches_checker: "healthCheckers_node m \<in> reaches (HealthJob m)"
  by (rule reaches_step [OF reaches_self]) simp

lemma HealthJob_reaches_storage: "HealthStorage \<in> reaches (HealthJob m)"
  by (rule reaches_step [OF reaches_self]) simp

lemma HealthHandler_reaches_component: "HealthComponent \<in> reaches HealthHandler"
proof -
  have "HealthChecksEndpoint \<in> reaches HealthHandler"
    by (rule reaches_step [OF reaches_self]) simp
  then show ?thesis by (rule reaches_step) simp
qed

lemma HealthHandler_reaches_NewComponent: "NewComponent \<in> reaches HealthHandler"
proof -
  have "ComponentLoggingMW \<in> reaches HealthHandler"
    by (rule reaches_step [OF HealthHandler_reaches_component]) simp
  then show ?thesis by (rule reaches_step) simp
qed

lemma HealthJob_reaches_validity: "HealthChecksValidity m \<in> reaches (HealthJob m)"
  by (rule reaches_step [OF reaches_self]) simp

lemma HealthJob_reaches_conn: "CockroachConn \<in> reaches (HealthJob m)"
  by (rule reaches_step [OF HealthJob_reaches_storage]) simp

lemma HealthJob_reaches_wrapped:
  assumes "m \<noteq> ''keycloak''"
  shows "ValidationMW m \<in> reaches (HealthJob m)" "AuthorizedHC m \<in> reaches (HealthJob m)"
    "LoggingMW m \<in> reaches (HealthJob m)" "Module m \<in> reaches (HealthJob m)"
proof -
  show v: "ValidationMW m \<in> reaches (HealthJob m)"
    using HealthJob_reaches_checker [of m] assms by (simp add: healthCheckers_node_def)
  show "AuthorizedHC m \<in> reaches (HealthJob m)"
    by (rule reaches_step [OF v]) simp
  show l: "LoggingMW m \<in> reaches (HealthJob m)"
    by (rule reaches_step [OF v]) simp
  show "Module m \<in> reaches (HealthJob m)"
    by (rule reaches_step [OF l]) simp
qed

lemma reaches_HealthJob_eq:
  "reaches (HealthJob m) =
     {HealthJob m, HealthChecksValidity m, HealthStorage, CockroachConn} \<union>
       (if m = ''keycloak'' then {Module m}
        else {ValidationMW m, AuthorizedHC m, LoggingMW m, Module m})"
proof (intro set_eqI iffI)
  fix x assume "x \<in> reaches (HealthJob m)"
  then show "x \<in> {HealthJob m, HealthChecksValidity m, HealthStorage, CockroachConn} \<union>
       (if m = ''keycloak'' then {Module m}
        else {ValidationMW m, AuthorizedHC m, LoggingMW m, Module m})"
    by (rule reaches_HealthJob_only)
next
  fix x assume x: "x \<in> {HealthJob m, HealthChecksValidity m, HealthStorage, CockroachConn} \<union>
       (if m = ''keycloak'' then {Module m}
        else {ValidationMW m, AuthorizedHC m, LoggingMW m, Module m})"
  show "x \<in> reaches (HealthJob m)"
  proof (cases "m = ''keycloak''")
    case True
    have "Module m \<in> reaches (HealthJob m)"
      using HealthJob_reaches_checker [of m] True by (simp add: healthCheckers_node_def)
    with x True show ?thesis
      using reaches_self [of "HealthJob m"] HealthJob_reaches_validity [of m]
        HealthJob_reaches_storage [of m] HealthJob_reaches_conn [of m]
      by auto
  next
    case False
    with x show ?thesis
      using reaches_self [of "HealthJob m"] HealthJob_reaches_validity [of m]
        HealthJob_reaches_storage [of m] HealthJob_reaches_conn [of m]
        HealthJob_reaches_wrapped [OF False]
      by auto
  qed
qed


text \<open>
  Claim C7, as the code has it.  For every module that gets a job, \<open>MakeHealthJob\<close> is
  handed \<open>healthCheckers[module]\<close>, the module's validity and the storage.  What the job
  can reach through them is exactly that checker with what it wraps (for keycloak the
  bare module), that validity, the storage and the database connection: the component,
  \<open>healthComponent\<close> in front of it and the module allow-list are not among them.  The HTTP
  handler reaches \<open>healthComponent\<close> and, through it, the same checker and the same
  storage.
\<close>

theorem HealthJob_built_from_checker:
  assumes "m \<in> set jobModules"
  shows "built_from (HealthJob m) = [healthCheckers_node m, HealthChecksValidity m, HealthStorage] \<and>
         reaches (HealthJob m) =
           {HealthJob m, HealthChecksValidity m, HealthStorage, CockroachConn} \<union>
             (if m = ''keycloak'' then {Module m}
              else {ValidationMW m, AuthorizedHC m, LoggingMW m, Module m}) \<and>
         HealthComponent \<notin> reaches (HealthJob m) \<and>
         NewComponent \<notin> reaches (HealthJob m) \<and>
         ValidModules \<notin> reaches (HealthJob m) \<and>
         healthCheckers_node m \<in> reaches (HealthJob m) \<and>
         HealthStorage \<in> reaches (HealthJob m) \<and>
         HealthComponent \<in> reaches HealthHandler \<and>
         healthCheckers_node m \<in> reaches HealthHandler \<and>
         HealthStorage \<in> reaches HealthHandler"
proof -
  have a: "HealthComponent \<notin> reaches (HealthJob m)" "NewComponent \<notin> reaches (HealthJob m)"
    "ValidModules \<notin> reaches (HealthJob m)"
    unfolding reaches_HealthJob_eq by simp_all
  have b: "healthCheckers_node m \<in> reaches HealthHandler"
    by (rule reaches_step [OF HealthHandler_reaches_NewComponent]) (use assms in simp)
  have c: "HealthStorage \<in> reaches HealthHandler"
    by (rule reaches_step [OF HealthHandler_reaches_NewComponent]) simp
  have d: "built_from (HealthJob m) = [healthCheckers_node m, HealthChecksValidity m, HealthStorage]"
    by simp
  from d reaches_HealthJob_eq [of m] a HealthJob_reaches_checker [of m]
    HealthJob_reaches_storage [of m] HealthHandler_reaches_component b c
  show ?thesis by blast
qed

theorem HealthJob_built_from_checker_witness:
  "''cockroach'' \<in> set jobModules \<and>
   HealthComponent \<notin> reaches (HealthJob ''cockroach'') \<and>
   built_from (HealthJob ''cockroach'') =
     [ValidationMW ''cockroach'', HealthChecksValidity ''cockroach'', HealthStorage] \<and>
   reaches (HealthJob ''cockroach'') =
     {HealthJob ''cockroach'', HealthChecksValidity ''cockroach'', HealthStorage, CockroachConn,
      ValidationMW ''cockroach'', AuthorizedHC ''cockroach'', LoggingMW ''cockroach'',
      Module ''cockroach''} \<and>
   ValidationMW ''cockroach'' \<in> reaches HealthHandler"
proof -
  have m: "''cockroach'' \<in> set jobModules" by (simp add: jobModules_def)
  from HealthJob_built_from_checker [OF m] m show ?thesis
    by (auto simp: healthCheckers_node_def)
qed

text \<open>The request path runs through \<open>healthComponent\<close>; the job of cockroach cannot reach
  it.\<close>

theorem HealthJob_bypasses_healthComponent:
  "HealthComponent \<in> reaches HealthHandler \<and> HealthComponent \<notin> reaches (HealthJob ''cockroach'')"
  using reaches_HealthJob_only [of HealthComponent "''cockroach''"]
    HealthHandler_reaches_component
  by auto

section \<open>Rows of the cache store\<close>

lemma find_filter_implied:
  "(\<And>x. P x \<Longrightarrow> Q x) \<Longrightarrow> find P (filter Q xs) = find P xs"
  by (induction xs) auto

lemma find_append_miss: "\<not> P y \<Longrightarrow> find P (xs @ [y]) = find P xs"
  by (induction xs) auto

lemma find_none_append_hit: "\<forall>x\<in>set xs. \<not> P x \<Longrightarrow> P y \<Longrightarrow> find P (xs @ [y]) = Some y"
  by (induction xs) auto

lemma distinct_store_Write:
  assumes "distinct (map row_key tbl)"
  shows "distinct (map row_key (store_Write sm rep tbl))"
proof -
  let ?k = "(componentID sm, module rep, checkName rep)"
  have "distinct (map row_key (filter (\<lambda>r. row_key r \<noteq> ?k) tbl))"
    using assms by (rule distinct_map_filter)
  moreover have "?k \<notin> set (map row_key (filter (\<lambda>r. row_key r \<noteq> ?k) tbl))" by auto
  moreover have "row_key \<lparr>row_instance = componentID sm, row_report = rep\<rparr> = ?k"
    by (simp add: row_key_def)
  ultimately show ?thesis by (simp add: store_Write_def)
qed

lemma distinct_store_Writes:
  "distinct (map row_key tbl) \<Longrightarrow> distinct (map row_key (store_Writes ws tbl))"
  unfolding store_Writes_def
  by (induction ws arbitrary: tbl) (simp_all add: distinct_store_Write)

lemma store_Read_after_Write:
  "store_Read sm (module rep) (checkName rep) (store_Write sm rep tbl) = Some rep"
proof -
  let ?k = "(componentID sm, module rep, checkName rep)"
  have "find (\<lambda>r. row_key r = ?k)
          (filter (\<lambda>r. row_key r \<noteq> ?k) tbl @ [\<lparr>row_instance = componentID sm, row_report = rep\<rparr>]) =
        Some \<lparr>row_instance = componentID sm, row_report = rep\<rparr>"
    by (rule find_none_append_hit) (simp_all add: row_key_def)
  then show ?thesis by (simp add: store_Read_def store_Write_def)
qed

lemma store_Read_other_instance:
  assumes "componentID sm1 \<noteq> componentID sm2"
  shows "store_Read sm2 m c (store_Write sm1 rep tbl) = store_Read sm2 m c tbl"
proof -
  let ?k1 = "(componentID sm1, module rep, checkName rep)"
  let ?k2 = "(componentID sm2, m, c)"
  have "find (\<lambda>r. row_key r = ?k2)
          (filter (\<lambda>r. row_key r \<noteq> ?k1) tbl @ [\<lparr>row_instance = componentID sm1, row_report = rep\<rparr>]) =
        find (\<lambda>r. row_key r = ?k2) (filter (\<lambda>r. row_key r \<noteq> ?k1) tbl)"
    using assms by (intro find_append_miss) (simp add: row_key_def)
  also have "\<dots> = find (\<lambda>r. row_key r = ?k2) tbl"
    using assms by (intro find_filter_implied) auto
  finally show ?thesis by (simp add: store_Read_def store_Write_def)
qed

lemma store_Write_other_rows:
  assumes "componentID sm1 \<noteq> componentID sm2"
  shows "filter (\<lambda>r. row_instance r = componentID sm2) (store_Write sm1 rep tbl) =
         filter (\<lambda>r. row_instance r = componentID sm2) tbl"
proof -
  have "filter (\<lambda>r. row_instance r = componentID sm2)
          (filter (\<lambda>r. row_key r \<noteq> (componentID sm1, module rep, checkName rep)) tbl) =
        filter (\<lambda>r. row_instance r = componentID sm2) tbl"
    using assms by (induction tbl) (auto simp: row_key_def)
  then show ?thesis using assms by (simp add: store_Write_def)
qed

text \<open>
  Claim C8, as amended.  The store gets its instance identifier as a constructor
  parameter: with Flaki enabled it is the identifier Flaki returned, with Flaki disabled
  it is \<open>unknown\<close>.  Rows are keyed by (instance, module, checkName): whatever is written,
  by whichever instances, no two rows share a key; a write replaces the row of its key;
  and a write by one instance leaves every row and every read of an instance with a
  different identifier as it was.
\<close>

theorem store_rows_keyed_by_instance:
  assumes "distinct (map row_key tbl)" and "componentID sm1 \<noteq> componentID sm2"
  shows "componentID (NewStorageModule name ident) = ident \<and>
         componentID (healthStorage True nextValidID) = nextValidID \<and>
         componentID (healthStorage False nextValidID) = ''unknown'' \<and>
         distinct (map row_key (store_Writes ws [])) \<and>
         distinct (map row_key (store_Write sm1 rep tbl)) \<and>
         store_Read sm1 (module rep) (checkName rep) (store_Write sm1 rep tbl) = Some rep \<and>
         filter (\<lambda>r. row_instance r = componentID sm2) (store_Write sm1 rep tbl) =
           filter (\<lambda>r. row_instance r = componentID sm2) tbl \<and>
         store_Read sm2 m c (store_Write sm1 rep tbl) = store_Read sm2 m c tbl"
proof -
  have "distinct (map row_key (store_Writes ws []))"
    by (rule distinct_store_Writes) simp
  then show ?thesis
    using assms distinct_store_Write store_Read_after_Write store_Write_other_rows
      store_Read_other_instance
    by (simp add: NewStorageModule_def healthStorage_def ComponentID_def)
qed

theorem store_rows_keyed_by_instance_witness:
  "distinct (map row_key
     [\<lparr>row_instance = ''8'',
       row_report = \<lparr>module = ''redis'', checkName = ''ping'', status = KO,
                     detail = ''down'', timestamp = 90, validity = 60\<rparr>\<rparr>]) \<and>
   componentID (healthStorage True ''7'') \<noteq> componentID (healthStorage True ''8'') \<and>
   store_Read (healthStorage True ''8'') ''redis'' ''ping''
     (store_Write (healthStorage True ''7'')
        \<lparr>module = ''redis'', checkName = ''ping'', status = OK,
          detail = ''pong'', timestamp = 100, validity = 60\<rparr>
        [\<lparr>row_instance = ''8'',
          row_report = \<lparr>module = ''redis'', checkName = ''ping'', status = KO,
                        detail = ''down'', timestamp = 90, validity = 60\<rparr>\<rparr>]) =
   Some \<lparr>module = ''redis'', checkName = ''ping'', status = KO,
          detail = ''down'', timestamp = 90, validity = 60\<rparr>"
proof -
  let ?tbl = "[\<lparr>row_instance = ''8'',
       row_report = \<lparr>module = ''redis'', checkName = ''ping'', status = KO,
                     detail = ''down'', timestamp = 90, validity = 60\<rparr>\<rparr>]"
  have d: "distinct (map row_key ?tbl)" by simp
  have n: "componentID (healthStorage True ''7'') \<noteq> componentID (healthStorage True ''8'')"
    by (simp add: healthStorage_def NewStorageModule_def ComponentID_def)
  have "store_Read (healthStorage True ''8'') ''redis'' ''ping'' ?tbl =
      Some \<lparr>module = ''redis'', checkName = ''ping'', status = KO,
          detail = ''down'', timestamp = 90, validity = 60\<rparr>"
    by (simp add: store_Read_def row_key_def healthStorage_def NewStorageModule_def ComponentID_def)
  with store_rows_keyed_by_instance [OF d n, of _ _ _ _ _ "''redis''" "''ping''"] d n
  show ?thesis by simp
qed

text \<open>Two instances started with Flaki disabled hold the same identifier, and the later
  write replaces the row of the earlier one.\<close>

theorem shared_identifier_overwrites:
  "componentID (healthStorage False ''7'') = componentID (healthStorage False ''8'') \<and>
   store_Read (healthStorage False ''8'') ''redis'' ''ping''
     (store_Write (healthStorage False ''7'')
        \<lparr>module = ''redis'', checkName = ''ping'', status = OK,
          detail = ''pong'', timestamp = 100, validity = 60\<rparr>
        (store_Write (healthStorage False ''8'')
           \<lparr>module = ''redis'', checkName = ''ping'', status = KO,
             detail = ''down'', timestamp = 90, validity = 60\<rparr> [])) =
   Some \<lparr>module = ''redis'', checkName = ''ping'', status = OK,
          detail = ''pong'', timestamp = 100, validity = 60\<rparr>"
  by (simp add: store_Read_def store_Write_def row_key_def healthStorage_def
      NewStorageModule_def ComponentID_def)

section \<open>Serving a fresh report from the cache\<close>

lemma store_Read_key:
  assumes "store_Read sm m c tbl = Some r"
  shows "module r = m \<and> checkName r = c"
proof -
  from assms obtain x where "find (\<lambda>r. row_key r = (componentID sm, m, c)) tbl = Some x"
    and "r = row_report x"
    by (auto simp: store_Read_def)
  then show ?thesis by (auto simp: find_Some_iff row_key_def)
qed

lemma expand_single: "m \<noteq> '''' \<Longrightarrow> c \<noteq> '''' \<Longrightarrow> expand m c = [(m, c)]"
  by (simp add: expand_def)

lemma aggregate_single: "aggregate [st] = st"
  by (cases st) (simp_all add: aggregate_def)

text \<open>
  Claim C1.  A report is fresh exactly when \<open>now - timestamp < validity\<close> and stale
  otherwise.  For a key whose cached report was written at \<open>timestamp r\<close> with validity
  \<open>validity r\<close>, a request for that key at any \<open>t < timestamp r + validity r\<close> without
  \<open>noCache\<close> returns the report unchanged and leaves the state as it was: no probe call
  is made.
\<close>

theorem fresh_cached_report_served:
  assumes "Authorize m c" and "m \<noteq> ''''" and "c \<noteq> ''''"
    and "\<not> store_failing s"
    and "store_Read (storage e) m c (table s) = Some r"
    and "t < timestamp r + validity r"
  shows "Orchestrator e t \<lparr>rq_module = m, rq_healthcheck = c, rq_nocache = False\<rparr> s =
           (Inr \<lparr>resp_status = status r, resp_modules = [(m, [r])]\<rparr>, s) \<and>
         probe_calls (snd (Orchestrator e t \<lparr>rq_module = m, rq_healthcheck = c, rq_nocache = False\<rparr> s)) =
           probe_calls s \<and>
         (fresh t' r \<longleftrightarrow> t' - timestamp r < validity r) \<and>
         (\<not> fresh t' r \<longleftrightarrow> timestamp r + validity r \<le> t')"
proof -
  have f: "fresh t r" using assms(6) by (simp add: fresh_def)
  have k: "module r = m" using store_Read_key [OF assms(5)] by simp
  have "resolve e t False (m, c) s = (r, s)"
    using assms(4,5) f by (simp add: resolve_def)
  then have "resolve_all e t False [(m, c)] s = ([r], s)" by simp
  then have "Orchestrator e t \<lparr>rq_module = m, rq_healthcheck = c, rq_nocache = False\<rparr> s =
           (Inr \<lparr>resp_status = status r, resp_modules = [(m, [r])]\<rparr>, s)"
    using assms(1,2,3) k by (simp add: Orchestrator_def expand_single aggregate_single)
  then show ?thesis by (auto simp: fresh_def)
qed

theorem fresh_cached_report_served_witness:
  "Authorize ''redis'' ''ping'' \<and>
   Orchestrator
     \<lparr>registry = (\<lambda>m c. ProbeError), validityOf = (\<lambda>m. 60), storage = healthStorage True ''7''\<rparr> 130
     \<lparr>rq_module = ''redis'', rq_healthcheck = ''ping'', rq_nocache = False\<rparr>
     \<lparr>table = [\<lparr>row_instance = ''7'',
                 row_report = \<lparr>module = ''redis'', checkName = ''ping'', status = OK,
                               detail = ''pong'', timestamp = 100, validity = 60\<rparr>\<rparr>],
      store_failing = False, probe_calls = []\<rparr> =
   (Inr \<lparr>resp_status = OK,
         resp_modules = [(''redis'', [\<lparr>module = ''redis'', checkName = ''ping'', status = OK,
                                       detail = ''pong'', timestamp = 100, validity = 60\<rparr>])]\<rparr>,
    \<lparr>table = [\<lparr>row_instance = ''7'',
                 row_report = \<lparr>module = ''redis'', checkName = ''ping'', status = OK,
                               detail = ''pong'', timestamp = 100, validity = 60\<rparr>\<rparr>],
      store_failing = False, probe_calls = []\<rparr>)"
proof -
  let ?r = "\<lparr>module = ''redis'', checkName = ''ping'', status = OK,
             detail = ''pong'', timestamp = 100, validity = 60\<rparr>"
  let ?e = "\<lparr>registry = (\<lambda>m c. ProbeError), validityOf = (\<lambda>m. 60), storage = healthStorage True ''7''\<rparr>"
  let ?s = "\<lparr>table = [\<lparr>row_instance = ''7'', row_report = ?r\<rparr>],
             store_failing = False, probe_calls = []\<rparr>"
  have a: "Authorize ''redis'' ''ping''"
    by (simp add: Authorize_def validModules_def authorizedHC_of_def authorizedHC_def
        healthcheckNames_def)
  have rd: "store_Read (storage ?e) ''redis'' ''ping'' (table ?s) = Some ?r"
    by (simp add: store_Read_def row_key_def healthStorage_def NewStorageModule_def ComponentID_def)
  have t: "(130::int) < timestamp ?r + validity ?r" by simp
  have ne: "''redis'' \<noteq> ''''" "''ping'' \<noteq> ''''" by simp_all
  have up: "\<not> store_failing ?s" by simp
  from fresh_cached_report_served [OF a ne up rd t] a show ?thesis by simp
qed

end
